theory Spec2Isabelle
  imports Main "HOL-Library.DAList" "HOL-Library.Product_Lexorder"
begin

section \<open>The storage layer of the messenger backend\<close>

text \<open>
  The code under study is \<^verbatim>\<open>app/models/cassandra_models.py\<close>: the classes
  \<^verbatim>\<open>MessageModel\<close> and \<^verbatim>\<open>ConversationModel\<close>, whose static methods send CQL
  statements through \<^verbatim>\<open>cassandra_client.execute\<close>. The tables are those created by
  \<^verbatim>\<open>scripts/setup_db.py\<close> (\<^verbatim>\<open>create_tables\<close>).

  Each method is embedded as a function on an explicit store. The two values a method
  takes from its environment, \<^verbatim>\<open>datetime.utcnow()\<close> and \<^verbatim>\<open>uuid.uuid4()\<close>, are
  parameters of the embedded function. Identifiers of type \<^verbatim>\<open>UUID\<close> are natural
  numbers (their order is the order the store sorts \<^verbatim>\<open>uuid\<close> columns by), timestamps
  are integers (the instant at the resolution of the store's \<^verbatim>\<open>timestamp\<close> type), and
  conversation ids are Python's unbounded integers.
\<close>

type_synonym uuid = nat
type_synonym timestamp = int

subsection \<open>Tables\<close>

text \<open>
  A table maps a primary key to the remaining columns of the row; a table cannot hold
  two rows with one primary key, so it is an association list with distinct keys.
  The order of the list is the order in which a scan of the whole table meets the rows.

  \<^item> \<^verbatim>\<open>messages\<close>: \<^verbatim>\<open>PRIMARY KEY (conversation_id, timestamp, message_id)\<close>,
    \<^verbatim>\<open>CLUSTERING ORDER BY (timestamp DESC, message_id ASC)\<close>;
  \<^item> \<^verbatim>\<open>messages_by_user\<close>: \<^verbatim>\<open>PRIMARY KEY ((user_id), conversation_id, timestamp, message_id)\<close>;
  \<^item> \<^verbatim>\<open>conversations\<close>: \<^verbatim>\<open>PRIMARY KEY (conversation_id)\<close>;
  \<^item> \<^verbatim>\<open>conversations_by_user\<close>: \<^verbatim>\<open>PRIMARY KEY (user_id, last_message_at, conversation_id)\<close>,
    \<^verbatim>\<open>CLUSTERING ORDER BY (last_message_at DESC, conversation_id ASC)\<close>.
\<close>

record msg_cols =
  sender_id :: uuid
  receiver_id :: uuid
  content :: string

type_synonym msg_key = "int \<times> timestamp \<times> uuid"
type_synonym msg_row = "msg_key \<times> msg_cols"

type_synonym mbu_key = "uuid \<times> int \<times> timestamp \<times> uuid"

text \<open>Every column of \<^verbatim>\<open>conversations\<close> outside the key can be null.\<close>

record conv_summary =
  user1_id :: "uuid option"
  user2_id :: "uuid option"
  last_message_at :: "timestamp option"
  last_message_content :: "string option"

record conv_cols = conv_summary +
  created_at :: "timestamp option"

type_synonym conv_row = "int \<times> conv_cols"

record cbu_cols =
  other_user_id :: uuid
  cbu_last_message_content :: string

type_synonym cbu_key = "uuid \<times> timestamp \<times> int"
type_synonym cbu_row = "cbu_key \<times> cbu_cols"

record store =
  messages :: "(msg_key, msg_cols) alist"
  messages_by_user :: "(mbu_key, msg_cols) alist"
  conversations :: "(int, conv_cols) alist"
  conversations_by_user :: "(cbu_key, cbu_cols) alist"

definition empty_store :: store where
  "empty_store = \<lparr>messages = DAList.empty, messages_by_user = DAList.empty,
     conversations = DAList.empty, conversations_by_user = DAList.empty\<rparr>"

text \<open>The columns of a row of \<^verbatim>\<open>messages\<close>, as the code reads them from the row.\<close>

definition conversation_id :: "msg_row \<Rightarrow> int" where
  "conversation_id r = fst (fst r)"

definition timestamp :: "msg_row \<Rightarrow> timestamp" where
  "timestamp r = fst (snd (fst r))"

definition message_id :: "msg_row \<Rightarrow> uuid" where
  "message_id r = snd (snd (fst r))"

subsection \<open>The statements the methods execute\<close>

text \<open>
  \<^verbatim>\<open>SELECT ... FROM messages WHERE conversation_id = %s\<close> reads one partition; the
  store returns its rows in clustering order, timestamp descending, then message id
  ascending.
\<close>

definition select_messages :: "store \<Rightarrow> int \<Rightarrow> msg_row list" where
  "select_messages s c =
     sort_key (\<lambda>r. (- timestamp r, message_id r))
       (filter (\<lambda>r. conversation_id r = c) (DAList.impl_of (messages s)))"

text \<open>
  \<^verbatim>\<open>SELECT ... FROM conversations_by_user WHERE user_id = %s\<close>: one partition, in
  clustering order, last-message time descending, then conversation id ascending.
\<close>

definition select_conversations_by_user :: "store \<Rightarrow> uuid \<Rightarrow> cbu_row list" where
  "select_conversations_by_user s u =
     sort_key (\<lambda>r. (- fst (snd (fst r)), snd (snd (fst r))))
       (filter (\<lambda>r. fst (fst r) = u) (DAList.impl_of (conversations_by_user s)))"

text \<open>\<^verbatim>\<open>SELECT * FROM conversations WHERE conversation_id = %s\<close>: no row or one row.\<close>

definition select_conversation :: "store \<Rightarrow> int \<Rightarrow> conv_row list" where
  "select_conversation s c =
     (case DAList.lookup (conversations s) c of None \<Rightarrow> [] | Some v \<Rightarrow> [(c, v)])"

text \<open>
  \<^verbatim>\<open>SELECT * FROM conversations WHERE user1_id = %s AND user2_id = %s ALLOW FILTERING\<close>:
  a scan of the table; a null column matches no value.
\<close>

definition select_pair :: "store \<Rightarrow> uuid \<Rightarrow> uuid \<Rightarrow> conv_row list" where
  "select_pair s a b =
     filter (\<lambda>r. user1_id (snd r) = Some a \<and> user2_id (snd r) = Some b)
       (DAList.impl_of (conversations s))"

text \<open>
  \<^verbatim>\<open>SELECT MAX(conversation_id) as max_id FROM conversations\<close>: one row, whose
  \<^verbatim>\<open>max_id\<close> is null when the table is empty.
\<close>

fun max_of :: "int list \<Rightarrow> int option" where
  "max_of [] = None"
| "max_of (k # ks) = Some (fold max ks k)"

definition select_max_id :: "store \<Rightarrow> int option" where
  "select_max_id s = max_of (map fst (DAList.impl_of (conversations s)))"

text \<open>
  \<^verbatim>\<open>INSERT\<close> and \<^verbatim>\<open>UPDATE\<close> both write the named columns of the row with the
  given key, creating the row when there is none (its other columns null).
\<close>

definition null_conv :: conv_cols where
  "null_conv = \<lparr>user1_id = None, user2_id = None, last_message_at = None,
     last_message_content = None, created_at = None\<rparr>"

definition write_conversation ::
  "int \<Rightarrow> (conv_cols \<Rightarrow> conv_cols) \<Rightarrow> (int, conv_cols) alist \<Rightarrow> (int, conv_cols) alist" where
  "write_conversation c f t =
     DAList.update c (f (case DAList.lookup t c of None \<Rightarrow> null_conv | Some v \<Rightarrow> v)) t"

subsection \<open>Python list slicing\<close>

text \<open>
  \<^verbatim>\<open>xs[start:stop]\<close>: a negative bound counts from the end of the list, and every
  bound is clamped to the list.
\<close>

definition py_bound :: "nat \<Rightarrow> int \<Rightarrow> nat" where
  "py_bound n i =
     (if i < 0 then (if i + int n < 0 then 0 else nat (i + int n))
      else (if int n \<le> i then n else nat i))"

definition py_slice :: "'a list \<Rightarrow> int \<Rightarrow> int \<Rightarrow> 'a list" where
  "py_slice xs start stop =
     (let lo = py_bound (length xs) start; hi = py_bound (length xs) stop
      in take (hi - lo) (drop lo xs))"

subsection \<open>MessageModel\<close>

text \<open>The dictionaries the methods return.\<close>

record message = msg_cols +
  msg_id :: uuid
  msg_conversation_id :: int
  msg_created_at :: timestamp

record created_message = message +
  read_at :: "timestamp option"

record 'a paged =
  total :: int
  page :: int
  limit :: int
  data :: "'a list"

definition insert_message_by_user ::
  "int \<Rightarrow> timestamp \<Rightarrow> uuid \<Rightarrow> msg_cols \<Rightarrow> uuid \<Rightarrow> store \<Rightarrow> store" where
  "insert_message_by_user c ts mid cols user_id s =
     s\<lparr>messages_by_user := DAList.update (user_id, c, ts, mid) cols (messages_by_user s)\<rparr>"

definition insert_conversation_by_user ::
  "int \<Rightarrow> timestamp \<Rightarrow> uuid \<Rightarrow> uuid \<Rightarrow> string \<Rightarrow> uuid \<Rightarrow> store \<Rightarrow> store" where
  "insert_conversation_by_user c ts sender receiver text user_id s =
     (let other = (if user_id = sender then receiver else sender)
      in s\<lparr>conversations_by_user :=
             DAList.update (user_id, ts, c)
               \<lparr>other_user_id = other, cbu_last_message_content = text\<rparr>
               (conversations_by_user s)\<rparr>)"

text \<open>
  \<^verbatim>\<open>create_message(sender_id, receiver_id, content, conversation_id)\<close>;
  \<open>now\<close> is the value of \<^verbatim>\<open>datetime.utcnow()\<close> and \<open>mid\<close> that of
  \<^verbatim>\<open>uuid.uuid4()\<close>.
\<close>

definition create_message ::
  "timestamp \<Rightarrow> uuid \<Rightarrow> uuid \<Rightarrow> uuid \<Rightarrow> string \<Rightarrow> int \<Rightarrow> store \<Rightarrow> created_message \<times> store" where
  "create_message now mid sender receiver text c s =
     (let cols = \<lparr>sender_id = sender, receiver_id = receiver, content = text\<rparr>;
          s1 = s\<lparr>messages := DAList.update (c, now, mid) cols (messages s)\<rparr>;
          s2 = fold (insert_message_by_user c now mid cols) [sender, receiver] s1;
          s3 = s2\<lparr>conversations :=
                 write_conversation c
                   (\<lambda>v. v\<lparr>last_message_at := Some now, last_message_content := Some text\<rparr>)
                   (conversations s2)\<rparr>;
          s4 = fold (insert_conversation_by_user c now sender receiver text) [sender, receiver] s3
      in (\<lparr>sender_id = sender, receiver_id = receiver, content = text,
            msg_id = mid, msg_conversation_id = c, msg_created_at = now, read_at = None\<rparr>, s4))"

definition format_message :: "msg_row \<Rightarrow> message" where
  "format_message r =
     \<lparr>sender_id = sender_id (snd r), receiver_id = receiver_id (snd r),
      content = content (snd r), msg_id = message_id r,
      msg_conversation_id = conversation_id r, msg_created_at = timestamp r\<rparr>"

text \<open>
  \<^verbatim>\<open>list.sort(key=lambda msg: msg['timestamp'], reverse=True)\<close>: a stable sort, so
  rows of one timestamp keep the order they had, also with \<^verbatim>\<open>reverse=True\<close>.
\<close>

definition sort_newest_first :: "msg_row list \<Rightarrow> msg_row list" where
  "sort_newest_first rows = sort_key (\<lambda>r. - timestamp r) rows"

definition get_conversation_messages :: "store \<Rightarrow> int \<Rightarrow> int \<Rightarrow> int \<Rightarrow> message paged" where
  "get_conversation_messages s c pg lim =
     (let all_messages = select_messages s c;
          tot = int (length all_messages);
          sorted_messages = sort_newest_first all_messages;
          start_idx = (pg - 1) * lim;
          end_idx = start_idx + lim;
          paginated_messages = py_slice sorted_messages start_idx end_idx
      in \<lparr>total = tot, page = pg, limit = lim, data = map format_message paginated_messages\<rparr>)"

definition get_messages_before_timestamp ::
  "store \<Rightarrow> int \<Rightarrow> timestamp \<Rightarrow> int \<Rightarrow> int \<Rightarrow> message paged" where
  "get_messages_before_timestamp s c before_timestamp pg lim =
     (let filtered_messages = filter (\<lambda>r. timestamp r < before_timestamp) (select_messages s c);
          tot = int (length filtered_messages);
          sorted_messages = sort_newest_first filtered_messages;
          start_idx = (pg - 1) * lim;
          end_idx = start_idx + lim;
          paginated_messages = py_slice sorted_messages start_idx end_idx
      in \<lparr>total = tot, page = pg, limit = lim, data = map format_message paginated_messages\<rparr>)"

subsection \<open>ConversationModel\<close>

record conversation = conv_summary +
  conv_id :: int

record created_conversation = conversation +
  conv_created_at :: "timestamp option"

definition format_conversation :: "conv_row \<Rightarrow> conversation" where
  "format_conversation r =
     \<lparr>user1_id = user1_id (snd r), user2_id = user2_id (snd r),
      last_message_at = last_message_at (snd r),
      last_message_content = last_message_content (snd r), conv_id = fst r\<rparr>"

text \<open>
  The loop of \<^verbatim>\<open>get_user_conversations\<close> over the page: one lookup in
  \<^verbatim>\<open>conversations\<close> for each index entry, appended when the lookup returns a row.
\<close>

fun format_conversations :: "store \<Rightarrow> cbu_row list \<Rightarrow> conversation list \<Rightarrow> conversation list" where
  "format_conversations s [] formatted = formatted"
| "format_conversations s (conv # rest) formatted =
     (case select_conversation s (snd (snd (fst conv))) of
        [] \<Rightarrow> format_conversations s rest formatted
      | detail # _ \<Rightarrow> format_conversations s rest (formatted @ [format_conversation detail]))"

definition get_user_conversations :: "store \<Rightarrow> uuid \<Rightarrow> int \<Rightarrow> int \<Rightarrow> conversation paged" where
  "get_user_conversations s u pg lim =
     (let all_conversations = select_conversations_by_user s u;
          tot = int (length all_conversations);
          start_idx = (pg - 1) * lim;
          end_idx = start_idx + lim;
          paginated_conversations = py_slice all_conversations start_idx end_idx
      in \<lparr>total = tot, page = pg, limit = lim,
          data = format_conversations s paginated_conversations []\<rparr>)"

definition get_conversation :: "store \<Rightarrow> int \<Rightarrow> conversation option" where
  "get_conversation s c =
     (case select_conversation s c of [] \<Rightarrow> None | conv # _ \<Rightarrow> Some (format_conversation conv))"

text \<open>
  \<^verbatim>\<open>create_or_get_conversation(user1_id, user2_id)\<close>; \<open>now\<close> is the value of
  \<^verbatim>\<open>datetime.utcnow()\<close>. In \<^verbatim>\<open>(max_id or 0) + 1\<close> both a null and a zero
  \<^verbatim>\<open>max_id\<close> give \<open>0\<close>.
\<close>

definition or_zero :: "int option \<Rightarrow> int" where
  "or_zero m = (case m of None \<Rightarrow> 0 | Some k \<Rightarrow> if k = 0 then 0 else k)"

definition create_or_get_conversation ::
  "timestamp \<Rightarrow> uuid \<Rightarrow> uuid \<Rightarrow> store \<Rightarrow> created_conversation \<times> store" where
  "create_or_get_conversation now u1 u2 s =
     (let result = select_pair s u1 u2;
          result = (if result = [] then select_pair s u2 u1 else result)
      in case result of
           conv # _ \<Rightarrow>
             (\<lparr>user1_id = user1_id (snd conv), user2_id = user2_id (snd conv),
               last_message_at = last_message_at (snd conv),
               last_message_content = last_message_content (snd conv),
               conv_id = fst conv, conv_created_at = created_at (snd conv)\<rparr>, s)
         | [] \<Rightarrow>
             (let new_id = or_zero (select_max_id s) + 1;
                  s' = s\<lparr>conversations :=
                         write_conversation new_id
                           (\<lambda>v. v\<lparr>user1_id := Some u1, user2_id := Some u2,
                                  created_at := Some now, last_message_at := Some now\<rparr>)
                           (conversations s)\<rparr>
              in (\<lparr>user1_id = Some u1, user2_id = Some u2, last_message_at = Some now,
                    last_message_content = None, conv_id = new_id,
                    conv_created_at = Some now\<rparr>, s')))"

subsection \<open>The orders and invariants the properties speak of\<close>

text \<open>
  The order of a page of messages: newer before older, and of two messages of one
  timestamp the one with the smaller message id first.
\<close>

definition newest_first :: "message \<Rightarrow> message \<Rightarrow> bool" where
  "newest_first a b =
     (msg_created_at b < msg_created_at a \<or>
      (msg_created_at a = msg_created_at b \<and> msg_id a < msg_id b))"


text \<open>
  Reading a paginated result page by page: the pages \<open>1, ..., n\<close> of a read, one after
  the other.
\<close>

definition all_pages :: "(int \<Rightarrow> 'a paged) \<Rightarrow> nat \<Rightarrow> 'a list" where
  "all_pages read n = concat (map (\<lambda>p. data (read (int p))) [1..<Suc n])"

text \<open>
  The invariant of the table \<^verbatim>\<open>conversations\<close>: at most one row for an unordered
  pair of participants. Two rows with the same two participants, in the same or in the
  opposite orientation, are one row.
\<close>

definition same_pair :: "conv_row \<Rightarrow> conv_row \<Rightarrow> bool" where
  "same_pair r1 r2 =
     (user1_id (snd r1) \<noteq> None \<and> user2_id (snd r1) \<noteq> None \<and>
      ((user1_id (snd r2) = user1_id (snd r1) \<and> user2_id (snd r2) = user2_id (snd r1)) \<or>
       (user1_id (snd r2) = user2_id (snd r1) \<and> user2_id (snd r2) = user1_id (snd r1))))"

definition pair_unique :: "store \<Rightarrow> bool" where
  "pair_unique s =
     list_all (\<lambda>r1. list_all (\<lambda>r2. same_pair r1 r2 \<longrightarrow> fst r1 = fst r2)
                  (DAList.impl_of (conversations s)))
       (DAList.impl_of (conversations s))"

text \<open>
  The index entries of the page that \<^verbatim>\<open>get_user_conversations\<close> looks up in
  \<^verbatim>\<open>conversations\<close>, and the conversation id of an index entry.
\<close>

definition entry_conversation_id :: "cbu_row \<Rightarrow> int" where
  "entry_conversation_id e = snd (snd (fst e))"

definition index_page :: "store \<Rightarrow> uuid \<Rightarrow> int \<Rightarrow> int \<Rightarrow> cbu_row list" where
  "index_page s u pg lim =
     py_slice (select_conversations_by_user s u) ((pg - 1) * lim) ((pg - 1) * lim + lim)"

text \<open>
  A request for page \<open>pg\<close> with limit \<open>lim\<close> over \<open>tot\<close> rows is in range when
  the page and the limit are at least one and the page starts inside the rows. It wraps
  around when the bounds of the slice are negative and reach rows from the end of the
  list: page 1 with a negative limit shorter than the list (the slice \<^verbatim>\<open>[0:lim]\<close>), or
  a negative page with a positive limit whose slice \<^verbatim>\<open>[(pg-1)*lim : pg*lim]\<close> ends
  inside the list.
\<close>

definition in_range :: "int \<Rightarrow> int \<Rightarrow> int \<Rightarrow> bool" where
  "in_range tot pg lim = (1 \<le> pg \<and> 1 \<le> lim \<and> (pg - 1) * lim < tot)"

definition wraps_around :: "int \<Rightarrow> int \<Rightarrow> int \<Rightarrow> bool" where
  "wraps_around tot pg lim =
     ((pg = 1 \<and> lim < 0 \<and> - lim < tot) \<or> (pg < 0 \<and> 0 < lim \<and> - (pg * lim) < tot))"

subsection \<open>Example stores\<close>

text \<open>Three messages sent in conversation 1 at the times 1, 2 and 3.\<close>

definition three_messages :: store where
  "three_messages =
     snd (create_message 3 12 1 2 ''c'' 1
       (snd (create_message 2 11 2 1 ''b'' 1
         (snd (create_message 1 10 1 2 ''a'' 1 empty_store)))))"

text \<open>
  User 1 sends ``hi'' to user 2, which creates their conversation; user 2 answers
  ``hello'' in that conversation.
\<close>

definition two_users_talk :: store where
  "two_users_talk =
     (let (conv, s1) = create_or_get_conversation 1 1 2 empty_store;
          (m1, s2) = create_message 2 10 1 2 ''hi'' (conv_id conv) s1;
          (m2, s3) = create_message 3 11 2 1 ''hello'' (conv_id conv) s2
      in s3)"

text \<open>An index entry of user 1 for conversation 7, which has no row in \<^verbatim>\<open>conversations\<close>.\<close>

definition dangling_index :: store where
  "dangling_index =
     empty_store\<lparr>conversations_by_user :=
       DAList.update (1, 5, 7) \<lparr>other_user_id = 2, cbu_last_message_content = ''hi''\<rparr>
         DAList.empty\<rparr>"

text \<open>
  Two rows for users 1 and 2, one in each orientation, as the random pairs of
  \<^verbatim>\<open>scripts/generate_test_data.py\<close> or two racing first messages can leave them.
\<close>

definition both_orientations :: store where
  "both_orientations =
     empty_store\<lparr>conversations :=
       DAList.update 2
         \<lparr>user1_id = Some 2, user2_id = Some 1, last_message_at = Some 1,
          last_message_content = None, created_at = Some 1\<rparr>
         (DAList.update 1
            \<lparr>user1_id = Some 1, user2_id = Some 2, last_message_at = Some 1,
             last_message_content = None, created_at = Some 1\<rparr>
            DAList.empty)\<rparr>"

section \<open>Properties\<close>

subsection \<open>Slices\<close>

lemma py_slice_subseq: "set (py_slice xs a b) \<subseteq> set xs"
  unfolding py_slice_def Let_def by (meson set_take_subset set_drop_subset subset_trans)

lemma sorted_wrt_py_slice: "sorted_wrt R xs \<Longrightarrow> sorted_wrt R (py_slice xs a b)"
  unfolding py_slice_def Let_def by (simp add: sorted_wrt_take sorted_wrt_drop)

lemma py_bound_nat: "py_bound n (int m) = min n m"
  by (simp add: py_bound_def min_def)

lemma py_slice_nat: "py_slice xs (int a) (int (a + L)) = take L (drop a xs)"
proof -
  have e: "py_slice xs (int a) (int (a + L)) =
      take (min (length xs) (a + L) - min (length xs) a) (drop (min (length xs) a) xs)"
    unfolding py_slice_def Let_def py_bound_nat ..
  show ?thesis
  proof (cases "length xs \<le> a")
    case True
    then show ?thesis unfolding e by simp
  next
    case False
    then have "min (length xs) (a + L) - min (length xs) a = min (length xs - a) L"
      by arith
    moreover have "take (min (length xs - a) L) (drop a xs) = take L (drop a xs)"
      by (simp add: min_def)
    moreover have "min (length xs) a = a" using False by simp
    ultimately show ?thesis unfolding e by simp
  qed
qed

lemma py_slice_page:
  assumes "0 \<le> l"
  shows "py_slice xs (int k * l) (int k * l + l) = take (nat l) (drop (k * nat l) xs)"
proof -
  have "int k * l = int (k * nat l)" and "int k * l + l = int (k * nat l + nat l)"
    using assms by simp_all
  then show ?thesis by (simp only: py_slice_nat)
qed

lemma select_messages_keys:
  "distinct (map (\<lambda>r. (- timestamp r, message_id r)) (select_messages s c))"
proof -
  let ?k = "\<lambda>r::msg_row. (- timestamp r, message_id r)"
  let ?xs = "filter (\<lambda>r. conversation_id r = c) (DAList.impl_of (messages s))"
  have d: "distinct (map fst ?xs)" by (simp add: distinct_map_filter)
  have "inj_on ?k (set ?xs)"
  proof (rule inj_onI)
    fix x y assume "x \<in> set ?xs" "y \<in> set ?xs" "?k x = ?k y"
    then have "fst x = fst y"
      by (auto simp: conversation_id_def timestamp_def message_id_def prod_eq_iff)
    moreover have "distinct (map fst (DAList.impl_of (messages s)))" by simp
    moreover have "x \<in> set (DAList.impl_of (messages s))" "y \<in> set (DAList.impl_of (messages s))"
      using \<open>x \<in> set ?xs\<close> \<open>y \<in> set ?xs\<close> by simp_all
    ultimately show "x = y"
      by (metis eq_key_imp_eq_value prod.collapse)
  qed
  moreover have "distinct ?xs" using d by (metis distinct_map)
  ultimately show ?thesis by (simp add: select_messages_def distinct_map)
qed

lemma select_messages_ordered:
  "sorted_wrt (\<lambda>a b. newest_first (format_message a) (format_message b)) (select_messages s c)"
proof -
  let ?k = "\<lambda>r::msg_row. (- timestamp r, message_id r)"
  have "sorted (map ?k (select_messages s c))"
    unfolding select_messages_def by (rule sorted_sort_key)
  with select_messages_keys [of s c] have "sorted_wrt (<) (map ?k (select_messages s c))"
    by (simp add: strict_sorted_iff)
  then have "sorted_wrt (\<lambda>a b. ?k a < ?k b) (select_messages s c)"
    by (simp add: sorted_wrt_map)
  then show ?thesis
    by (rule sorted_wrt_mono_rel [rotated]) (auto simp: newest_first_def format_message_def less_prod_def)
qed

lemma newest_first_sorted_desc:
  assumes "sorted_wrt (\<lambda>a b. newest_first (format_message a) (format_message b)) rows"
  shows "sort_newest_first rows = rows"
proof -
  from assms have "sorted_wrt (\<lambda>a b. - timestamp a \<le> - timestamp b) rows"
    by (rule sorted_wrt_mono_rel [rotated]) (auto simp: newest_first_def format_message_def)
  then have "sorted (map (\<lambda>r. - timestamp r) rows)"
    by (simp add: sorted_wrt_map)
  then show ?thesis unfolding sort_newest_first_def by (rule sort_key_id_if_sorted)
qed

subsection \<open>Totals, order, lookup\<close>

lemma length_select_messages:
  "length (select_messages s c) =
     card {r \<in> set (DAList.impl_of (messages s)). conversation_id r = c}"
proof -
  have "distinct (DAList.impl_of (messages s))"
    by (metis distinct_map DAList.impl_of_distinct)
  then show ?thesis
    by (simp add: select_messages_def distinct_length_filter Int_def conj_commute)
qed

lemma length_select_conversations_by_user:
  "length (select_conversations_by_user s u) =
     card {r \<in> set (DAList.impl_of (conversations_by_user s)). fst (fst r) = u}"
proof -
  have "distinct (DAList.impl_of (conversations_by_user s))"
    by (metis distinct_map DAList.impl_of_distinct)
  then show ?thesis
    by (simp add: select_conversations_by_user_def distinct_length_filter Int_def conj_commute)
qed

lemma length_filter_select_messages:
  "length (filter (\<lambda>r. timestamp r < t) (select_messages s c)) =
     card {r \<in> set (DAList.impl_of (messages s)). conversation_id r = c \<and> timestamp r < t}"
proof -
  have "distinct (DAList.impl_of (messages s))"
    by (metis distinct_map DAList.impl_of_distinct)
  then have "distinct (select_messages s c)"
    by (simp add: select_messages_def)
  then have "length (filter (\<lambda>r. timestamp r < t) (select_messages s c)) =
      card ({r. timestamp r < t} \<inter> set (select_messages s c))"
    by (rule distinct_length_filter)
  also have "{r. timestamp r < t} \<inter> set (select_messages s c) =
      {r \<in> set (DAList.impl_of (messages s)). conversation_id r = c \<and> timestamp r < t}"
    by (auto simp: select_messages_def)
  finally show ?thesis .
qed

text \<open>
  Claim C3. The \<open>total\<close> of each paginated read is the number of rows of the whole
  matching set: the rows of the conversation, the rows of the conversation with a
  timestamp before \<open>t\<close>, the index rows of the user. It does not depend on the page
  or the limit, whatever their values.
\<close>

theorem total_is_size_of_matching_set:
  "total (get_conversation_messages s c pg lim) =
     int (card {r \<in> set (DAList.impl_of (messages s)). conversation_id r = c})
   \<and> total (get_messages_before_timestamp s c t pg lim) =
     int (card {r \<in> set (DAList.impl_of (messages s)). conversation_id r = c \<and> timestamp r < t})
   \<and> total (get_user_conversations s u pg lim) =
     int (card {r \<in> set (DAList.impl_of (conversations_by_user s)). fst (fst r) = u})"
  by (simp add: get_conversation_messages_def get_messages_before_timestamp_def
      get_user_conversations_def Let_def length_select_messages
      length_filter_select_messages length_select_conversations_by_user)

text \<open>
  Claim C2. Every page of \<open>get_conversation_messages\<close> and of
  \<open>get_messages_before_timestamp\<close> is in descending order of creation timestamp, and
  messages of one timestamp are in ascending order of message id.
\<close>

theorem messages_newest_first:
  "sorted_wrt newest_first (data (get_conversation_messages s c pg lim))
   \<and> sorted_wrt newest_first (data (get_messages_before_timestamp s c t pg lim))"
proof -
  let ?R = "\<lambda>a b. newest_first (format_message a) (format_message b)"
  have a: "sorted_wrt ?R (select_messages s c)" by (rule select_messages_ordered)
  then have b: "sorted_wrt ?R (filter (\<lambda>r. timestamp r < t) (select_messages s c))"
    by (rule sorted_wrt_filter)
  have "sorted_wrt ?R (py_slice (sort_newest_first (select_messages s c)) i j)" for i j
    using a by (simp add: newest_first_sorted_desc sorted_wrt_py_slice)
  moreover have "sorted_wrt ?R
      (py_slice (sort_newest_first (filter (\<lambda>r. timestamp r < t) (select_messages s c))) i j)" for i j
    using b by (simp add: newest_first_sorted_desc sorted_wrt_py_slice)
  ultimately show ?thesis
    by (simp add: get_conversation_messages_def get_messages_before_timestamp_def Let_def
        sorted_wrt_map)
qed

text \<open>
  Claim C9. \<open>get_conversation\<close> returns \<open>None\<close> exactly when the table holds no row
  with the id, and is a total function (absence is a value, not an error); when the
  table holds a row, it returns the id and the row's two participants, last-message
  time and last-message content.
\<close>

theorem get_conversation_absent_iff:
  "(get_conversation s c = None) = (c \<notin> fst ` set (DAList.impl_of (conversations s)))
   \<and> (\<forall>v. (c, v) \<in> set (DAList.impl_of (conversations s)) \<longrightarrow>
        get_conversation s c =
          Some \<lparr>user1_id = user1_id v, user2_id = user2_id v,
                last_message_at = last_message_at v,
                last_message_content = last_message_content v, conv_id = c\<rparr>)"
proof -
  have "DAList.lookup (conversations s) c = Some v" if "(c, v) \<in> set (DAList.impl_of (conversations s))" for v
    using that by (simp add: DAList.lookup.rep_eq)
  moreover have "(DAList.lookup (conversations s) c = None) = (c \<notin> fst ` set (DAList.impl_of (conversations s)))"
    by (simp add: DAList.lookup.rep_eq map_of_eq_None_iff)
  ultimately show ?thesis
    by (auto simp: get_conversation_def select_conversation_def format_conversation_def
        split: option.splits)
qed

subsection \<open>Evaluating the methods on concrete stores\<close>

lemmas store_eval =
  create_message_def insert_message_by_user_def insert_conversation_by_user_def
  create_or_get_conversation_def select_pair_def select_max_id_def or_zero_def
  write_conversation_def null_conv_def empty_store_def
  DAList.update.rep_eq DAList.empty.rep_eq DAList.lookup.rep_eq Let_def

lemmas read_eval =
  get_conversation_def select_conversation_def format_conversation_def
  get_user_conversations_def select_conversations_by_user_def
  get_conversation_messages_def get_messages_before_timestamp_def select_messages_def
  sort_newest_first_def format_message_def conversation_id_def timestamp_def message_id_def
  py_slice_def py_bound_def

text \<open>A store with conversation 1 and no conversation 2.\<close>

theorem get_conversation_absent_iff_witness:
  "get_conversation (snd (create_or_get_conversation 5 1 2 empty_store)) 1 =
     Some \<lparr>user1_id = Some 1, user2_id = Some 2, last_message_at = Some 5,
           last_message_content = None, conv_id = 1\<rparr>
   \<and> get_conversation (snd (create_or_get_conversation 5 1 2 empty_store)) 2 = None"
proof -
  let ?s = "snd (create_or_get_conversation 5 1 2 empty_store)"
  have rows: "DAList.impl_of (conversations ?s) =
      [(1, \<lparr>user1_id = Some 1, user2_id = Some 2, last_message_at = Some 5,
             last_message_content = None, created_at = Some 5\<rparr>)]"
    by (simp add: store_eval)
  show ?thesis
    using get_conversation_absent_iff [of ?s 1] get_conversation_absent_iff [of ?s 2]
    unfolding rows by simp
qed

subsection \<open>Reading all pages\<close>

lemma concat_map_map:
  "concat (map (\<lambda>p. map f (g p)) ps) = map f (concat (map g ps))"
  by (induction ps) simp_all

lemma all_pages_slices:
  assumes "0 \<le> lim"
  shows "concat (map (\<lambda>p. py_slice xs ((int p - 1) * lim) ((int p - 1) * lim + lim)) [1..<Suc n])
         = take (n * nat lim) xs"
proof (induction n)
  case 0
  show ?case by simp
next
  case (Suc n)
  let ?pg = "\<lambda>p. py_slice xs ((int p - 1) * lim) ((int p - 1) * lim + lim)"
  have pg: "?pg (Suc n) = take (nat lim) (drop (n * nat lim) xs)"
    using py_slice_page [OF assms, of xs n] by simp
  have "[1..<Suc (Suc n)] = [1..<Suc n] @ [Suc n]" by simp
  then have "concat (map ?pg [1..<Suc (Suc n)]) = concat (map ?pg [1..<Suc n]) @ ?pg (Suc n)"
    by (simp del: upt_Suc)
  also have "\<dots> = take (n * nat lim) xs @ take (nat lim) (drop (n * nat lim) xs)"
    unfolding Suc.IH pg ..
  also have "\<dots> = take (n * nat lim + nat lim) xs"
    by (simp only: take_add)
  also have "n * nat lim + nat lim = Suc n * nat lim" by simp
  finally show ?case .
qed

lemma all_pages_get_conversation_messages:
  assumes "0 \<le> lim"
  shows "all_pages (\<lambda>p. get_conversation_messages s c p lim) n =
     map format_message (take (n * nat lim) (sort_newest_first (select_messages s c)))"
  unfolding all_pages_def get_conversation_messages_def Let_def
  using all_pages_slices [OF assms, of "sort_newest_first (select_messages s c)" n]
  by (simp add: concat_map_map del: upt_Suc)

lemma all_pages_get_messages_before_timestamp:
  assumes "0 \<le> lim"
  shows "all_pages (\<lambda>p. get_messages_before_timestamp s c t p lim) n =
     map format_message (take (n * nat lim)
       (sort_newest_first (filter (\<lambda>r. timestamp r < t) (select_messages s c))))"
  unfolding all_pages_def get_messages_before_timestamp_def Let_def
  using all_pages_slices [OF assms,
      of "sort_newest_first (filter (\<lambda>r. timestamp r < t) (select_messages s c))" n]
  by (simp add: concat_map_map del: upt_Suc)

text \<open>
  Claim C4. Read page by page with a limit of at least one, over enough pages to hold
  the whole conversation, \<open>get_messages_before_timestamp\<close> returns exactly the messages
  that \<open>get_conversation_messages\<close> returns whose creation timestamp is strictly less
  than \<open>t\<close>, in the same order; a message created at \<open>t\<close> is not among them.
\<close>

theorem before_timestamp_is_strict_filter:
  assumes "1 \<le> lim" and "total (get_conversation_messages s c 1 lim) \<le> int n * lim"
  shows "all_pages (\<lambda>p. get_messages_before_timestamp s c t p lim) n =
     filter (\<lambda>m. msg_created_at m < t) (all_pages (\<lambda>p. get_conversation_messages s c p lim) n)"
proof -
  let ?all = "sort_newest_first (select_messages s c)"
  let ?bef = "sort_newest_first (filter (\<lambda>r. timestamp r < t) (select_messages s c))"
  have l: "0 \<le> lim" using assms(1) by simp
  have "int (length ?all) \<le> int n * lim"
    using assms(2) by (simp add: get_conversation_messages_def Let_def sort_newest_first_def)
  then have "int (length ?all) \<le> int (n * nat lim)" using l by simp
  then have n: "length ?all \<le> n * nat lim" by linarith
  have fs: "?bef = filter (\<lambda>r. timestamp r < t) ?all"
    by (simp add: sort_newest_first_def filter_sort)
  have "length ?bef \<le> length ?all" unfolding fs by (rule length_filter_le)
  with n have n': "length ?bef \<le> n * nat lim" by simp
  have "all_pages (\<lambda>p. get_messages_before_timestamp s c t p lim) n = map format_message ?bef"
    using n' by (simp add: all_pages_get_messages_before_timestamp [OF l])
  also have "\<dots> = filter (\<lambda>m. msg_created_at m < t) (map format_message ?all)"
    unfolding fs by (simp add: filter_map comp_def format_message_def)
  also have "map format_message ?all = all_pages (\<lambda>p. get_conversation_messages s c p lim) n"
    using n by (simp add: all_pages_get_conversation_messages [OF l])
  finally show ?thesis .
qed

subsection \<open>Writing a message\<close>

lemma messages_create_message:
  "messages (snd (create_message now mid sender receiver text c s)) =
     DAList.update (c, now, mid) \<lparr>sender_id = sender, receiver_id = receiver, content = text\<rparr>
       (messages s)"
  by (simp add: create_message_def Let_def insert_message_by_user_def
      insert_conversation_by_user_def)

lemma conversations_create_message:
  "conversations (snd (create_message now mid sender receiver text c s)) =
     write_conversation c
       (\<lambda>v. v\<lparr>last_message_at := Some now, last_message_content := Some text\<rparr>)
       (conversations s)"
  by (simp add: create_message_def Let_def insert_message_by_user_def
      insert_conversation_by_user_def)

lemma in_update: "(k, v) \<in> set (DAList.impl_of (DAList.update k v t))"
proof -
  have "map_of (DAList.impl_of (DAList.update k v t)) k = Some v"
    by (simp add: DAList.update.rep_eq update_conv')
  then show ?thesis by (rule map_of_SomeD)
qed

lemma lookup_write_conversation:
  "DAList.lookup (write_conversation c f t) c =
     Some (f (case DAList.lookup t c of None \<Rightarrow> null_conv | Some v \<Rightarrow> v))"
  by (simp add: write_conversation_def)

text \<open>
  Claim C6. After \<open>create_message\<close>, the message is among the messages that
  \<open>get_conversation_messages\<close> returns for the conversation (read page by page over
  enough pages), with the content, sender and receiver it was created with, and
  \<open>get_conversation\<close> returns the conversation with this content as its last-message
  content.
\<close>

theorem created_message_round_trip:
  assumes "1 \<le> lim"
    and "total (get_conversation_messages (snd (create_message now mid sender receiver text c s)) c 1 lim)
           \<le> int n * lim"
  shows "fst (create_message now mid sender receiver text c s) =
           \<lparr>sender_id = sender, receiver_id = receiver, content = text, msg_id = mid,
            msg_conversation_id = c, msg_created_at = now, read_at = None\<rparr>
     \<and> \<lparr>sender_id = sender, receiver_id = receiver, content = text, msg_id = mid,
         msg_conversation_id = c, msg_created_at = now\<rparr>
         \<in> set (all_pages
                 (\<lambda>p. get_conversation_messages
                        (snd (create_message now mid sender receiver text c s)) c p lim) n)
     \<and> map_option last_message_content
         (get_conversation (snd (create_message now mid sender receiver text c s)) c) =
         Some (Some text)"
proof -
  let ?s = "snd (create_message now mid sender receiver text c s)"
  let ?row = "((c, now, mid), \<lparr>sender_id = sender, receiver_id = receiver, content = text\<rparr>)"
  let ?all = "sort_newest_first (select_messages ?s c)"
  have l: "0 \<le> lim" using assms(1) by simp
  have "int (length ?all) \<le> int n * lim"
    using assms(2) by (simp add: get_conversation_messages_def Let_def sort_newest_first_def)
  then have "int (length ?all) \<le> int (n * nat lim)" using l by simp
  then have n: "length ?all \<le> n * nat lim" by linarith
  have "?row \<in> set (DAList.impl_of (messages ?s))"
    unfolding messages_create_message by (rule in_update)
  then have "?row \<in> set ?all"
    by (simp add: sort_newest_first_def select_messages_def conversation_id_def)
  then have "format_message ?row \<in> set (map format_message ?all)" by (simp only: set_map) (rule imageI)
  then have a: "format_message ?row
      \<in> set (all_pages (\<lambda>p. get_conversation_messages ?s c p lim) n)"
    using n by (simp add: all_pages_get_conversation_messages [OF l])
  have b: "format_message ?row = \<lparr>sender_id = sender, receiver_id = receiver, content = text,
      msg_id = mid, msg_conversation_id = c, msg_created_at = now\<rparr>"
    by (simp add: format_message_def conversation_id_def timestamp_def message_id_def)
  have c: "map_option last_message_content (get_conversation ?s c) = Some (Some text)"
    by (simp add: get_conversation_def select_conversation_def conversations_create_message
        lookup_write_conversation format_conversation_def)
  have d: "fst (create_message now mid sender receiver text c s) =
           \<lparr>sender_id = sender, receiver_id = receiver, content = text, msg_id = mid,
            msg_conversation_id = c, msg_created_at = now, read_at = None\<rparr>"
    by (simp add: create_message_def Let_def)
  from a b c d show ?thesis by simp
qed


text \<open>The first message of conversation 1, read back on one page of 20.\<close>

theorem created_message_round_trip_witness:
  "(1::int) \<le> 20
   \<and> total (get_conversation_messages (snd (create_message 1 10 1 2 ''a'' 1 empty_store)) 1 1 20)
       \<le> int 1 * 20
   \<and> \<lparr>sender_id = 1, receiver_id = 2, content = ''a'', msg_id = 10,
       msg_conversation_id = 1, msg_created_at = 1\<rparr>
       \<in> set (all_pages
               (\<lambda>p. get_conversation_messages
                      (snd (create_message 1 10 1 2 ''a'' 1 empty_store)) 1 p 20) 1)
   \<and> map_option last_message_content
       (get_conversation (snd (create_message 1 10 1 2 ''a'' 1 empty_store)) 1) =
       Some (Some ''a'')"
proof -
  have h1: "(1::int) \<le> 20" by simp
  have h2: "total (get_conversation_messages
      (snd (create_message 1 10 1 2 ''a'' 1 empty_store)) 1 1 20) \<le> int 1 * 20"
    by code_simp
  from created_message_round_trip [OF h1 h2] h2 show ?thesis by simp
qed

text \<open>
  Of the messages created at 1, 2 and 3, only the first is before timestamp 2: the
  message created at 2 is left out.
\<close>

theorem before_timestamp_is_strict_filter_witness:
  "(1::int) \<le> 2
   \<and> total (get_conversation_messages three_messages 1 1 2) \<le> int 2 * 2
   \<and> all_pages (\<lambda>p. get_messages_before_timestamp three_messages 1 2 p 2) 2 =
       filter (\<lambda>m. msg_created_at m < 2)
         (all_pages (\<lambda>p. get_conversation_messages three_messages 1 p 2) 2)
   \<and> all_pages (\<lambda>p. get_messages_before_timestamp three_messages 1 2 p 2) 2 =
       [\<lparr>sender_id = 1, receiver_id = 2, content = ''a'', msg_id = 10,
         msg_conversation_id = 1, msg_created_at = 1\<rparr>]"
proof -
  have h1: "(1::int) \<le> 2" by simp
  have h2: "total (get_conversation_messages three_messages 1 1 2) \<le> int 2 * 2"
    by code_simp
  have v: "filter (\<lambda>m. msg_created_at m < 2)
         (all_pages (\<lambda>p. get_conversation_messages three_messages 1 p 2) 2) =
       [\<lparr>sender_id = 1, receiver_id = 2, content = ''a'', msg_id = 10,
         msg_conversation_id = 1, msg_created_at = 1\<rparr>]"
    by code_simp
  from before_timestamp_is_strict_filter [OF h1 h2, of 2] h2 v show ?thesis by simp
qed

subsection \<open>Allocating a conversation id\<close>

lemma fold_max_ge: "k \<in> set (x # xs) \<Longrightarrow> k \<le> fold max xs (x::int)"
  by (metis Max.set_eq_fold Max_ge List.finite_set)

lemma max_of_eq:
  "max_of ks = (if ks = [] then None else Some (Max (set ks)))"
  by (cases ks) (simp_all add: Max.set_eq_fold del: set_simps)

lemma update_fresh:
  "k \<notin> fst ` set al \<Longrightarrow> AList.update k v al = al @ [(k, v)]"
  by (induction al) auto

lemma new_id_fresh:
  "or_zero (select_max_id s) + 1 \<notin> fst ` set (DAList.impl_of (conversations s))"
proof
  let ?ks = "map fst (DAList.impl_of (conversations s))"
  assume "or_zero (select_max_id s) + 1 \<in> fst ` set (DAList.impl_of (conversations s))"
  then have m: "or_zero (select_max_id s) + 1 \<in> set ?ks" by simp
  then have "?ks \<noteq> []" by auto
  then have "or_zero (select_max_id s) = Max (set ?ks)"
    by (simp add: select_max_id_def max_of_eq or_zero_def del: set_map)
  moreover have "or_zero (select_max_id s) + 1 \<le> Max (set ?ks)"
    using m by (intro Max_ge) simp_all
  ultimately show False by simp
qed

lemma create_new_conversation:
  assumes "select_pair s u1 u2 = []" and "select_pair s u2 u1 = []"
  shows "create_or_get_conversation now u1 u2 s =
     (\<lparr>user1_id = Some u1, user2_id = Some u2, last_message_at = Some now,
       last_message_content = None, conv_id = or_zero (select_max_id s) + 1,
       conv_created_at = Some now\<rparr>,
      s\<lparr>conversations := DAList.update (or_zero (select_max_id s) + 1)
          \<lparr>user1_id = Some u1, user2_id = Some u2, last_message_at = Some now,
           last_message_content = None, created_at = Some now\<rparr> (conversations s)\<rparr>)"
proof -
  have "DAList.lookup (conversations s) (or_zero (select_max_id s) + 1) = None"
    using new_id_fresh [of s] by (simp add: DAList.lookup.rep_eq map_of_eq_None_iff)
  then show ?thesis
    using assms by (simp add: create_or_get_conversation_def Let_def write_conversation_def
        null_conv_def)
qed

text \<open>
  Claim C8. When no row matches the pair in either orientation,
  \<open>create_or_get_conversation\<close> allocates the largest conversation id of the table
  plus one, and \<open>1\<close> when the table is empty; the new id is greater than every id in
  the table, and the table gains exactly the new row.
\<close>

theorem new_conversation_id_is_max_plus_one:
  assumes "select_pair s u1 u2 = []" and "select_pair s u2 u1 = []"
  shows "conv_id (fst (create_or_get_conversation now u1 u2 s)) =
           (if DAList.impl_of (conversations s) = [] then 1
            else Max (fst ` set (DAList.impl_of (conversations s))) + 1)
     \<and> (\<forall>k \<in> fst ` set (DAList.impl_of (conversations s)).
           k < conv_id (fst (create_or_get_conversation now u1 u2 s)))
     \<and> DAList.impl_of (conversations (snd (create_or_get_conversation now u1 u2 s))) =
           DAList.impl_of (conversations s) @
             [(conv_id (fst (create_or_get_conversation now u1 u2 s)),
               \<lparr>user1_id = Some u1, user2_id = Some u2, last_message_at = Some now,
                last_message_content = None, created_at = Some now\<rparr>)]"
proof -
  let ?rows = "DAList.impl_of (conversations s)"
  let ?new = "or_zero (select_max_id s) + 1"
  have id: "conv_id (fst (create_or_get_conversation now u1 u2 s)) = ?new"
    by (simp add: create_new_conversation [OF assms])
  have a: "?new = (if ?rows = [] then 1 else Max (fst ` set ?rows) + 1)"
    by (simp add: select_max_id_def max_of_eq or_zero_def del: set_map) (simp)
  have b: "k < ?new" if "k \<in> fst ` set ?rows" for k
  proof -
    from that have "?rows \<noteq> []" by auto
    with a have "?new = Max (fst ` set ?rows) + 1" by simp
    moreover have "k \<le> Max (fst ` set ?rows)" using that by (intro Max_ge) simp_all
    ultimately show ?thesis by simp
  qed
  have c: "DAList.impl_of (conversations (snd (create_or_get_conversation now u1 u2 s))) =
      ?rows @ [(?new, \<lparr>user1_id = Some u1, user2_id = Some u2, last_message_at = Some now,
                last_message_content = None, created_at = Some now\<rparr>)]"
    by (simp add: create_new_conversation [OF assms] DAList.update.rep_eq
        update_fresh [OF new_id_fresh])
  show ?thesis unfolding id using a b c by blast
qed

text \<open>The first conversation gets the id 1, the next pair the id 2.\<close>

theorem new_conversation_id_is_max_plus_one_witness:
  "select_pair (snd (create_or_get_conversation 1 1 2 empty_store)) 3 4 = []
   \<and> select_pair (snd (create_or_get_conversation 1 1 2 empty_store)) 4 3 = []
   \<and> conv_id (fst (create_or_get_conversation 1 1 2 empty_store)) = 1
   \<and> conv_id (fst (create_or_get_conversation 2 3 4
         (snd (create_or_get_conversation 1 1 2 empty_store)))) = 2"
proof -
  let ?s = "snd (create_or_get_conversation 1 1 2 empty_store)"
  have rows: "DAList.impl_of (conversations ?s) =
      [(1, \<lparr>user1_id = Some 1, user2_id = Some 2, last_message_at = Some 1,
             last_message_content = None, created_at = Some 1\<rparr>)]"
    by (simp add: store_eval)
  have h1: "select_pair ?s 3 4 = []" by code_simp
  have h2: "select_pair ?s 4 3 = []" by code_simp
  have e1: "select_pair empty_store 1 2 = []" and e2: "select_pair empty_store 2 1 = []"
    by (simp_all add: select_pair_def empty_store_def DAList.empty.rep_eq)
  have e: "DAList.impl_of (conversations empty_store) = []"
    by (simp add: empty_store_def DAList.empty.rep_eq)
  from new_conversation_id_is_max_plus_one [OF h1 h2, of 2]
    new_conversation_id_is_max_plus_one [OF e1 e2, of 1] h1 h2
  show ?thesis unfolding rows e by simp
qed

subsection \<open>Listing the conversations of a user\<close>

lemma format_conversations_eq:
  "format_conversations s es acc =
     acc @ concat (map (\<lambda>e. case get_conversation s (entry_conversation_id e) of
                               None \<Rightarrow> [] | Some c \<Rightarrow> [c]) es)"
  by (induction es arbitrary: acc)
    (auto simp: get_conversation_def entry_conversation_id_def split: list.splits)

lemma length_concat_options:
  "length (concat (map (\<lambda>e. case f e of None \<Rightarrow> [] | Some c \<Rightarrow> [c]) es)) =
     length es - length (filter (\<lambda>e. f e = None) es)"
proof (induction es)
  case Nil
  show ?case by simp
next
  case (Cons e es)
  have "length (filter (\<lambda>e. f e = None) es) \<le> length es" by (rule length_filter_le)
  with Cons show ?case by (auto split: option.splits)
qed

lemma length_index_page:
  assumes "1 \<le> pg" and "1 \<le> lim"
    and "(pg - 1) * lim \<le> int (length (select_conversations_by_user s u))"
  shows "int (length (index_page s u pg lim)) =
     min lim (int (length (select_conversations_by_user s u)) - (pg - 1) * lim)"
proof -
  let ?xs = "select_conversations_by_user s u"
  define K where "K = nat (pg - 1) * nat lim"
  define L where "L = nat lim"
  have l: "0 \<le> lim" using assms(2) by simp
  have L: "int L = lim" using l by (simp add: L_def)
  have K: "int K = (pg - 1) * lim" using assms(1) l by (simp add: K_def)
  have e: "int (nat (pg - 1)) = pg - 1" using assms(1) by simp
  have "py_slice ?xs (int (nat (pg - 1)) * lim) (int (nat (pg - 1)) * lim + lim) =
      take (nat lim) (drop (nat (pg - 1) * nat lim) ?xs)"
    by (rule py_slice_page [OF l])
  then have "index_page s u pg lim = take L (drop K ?xs)"
    unfolding index_page_def K_def L_def e .
  then have "length (index_page s u pg lim) = min L (length ?xs - K)" by simp
  moreover have "K \<le> length ?xs" using assms(3) K by linarith
  ultimately have "int (length (index_page s u pg lim)) = min (int L) (int (length ?xs) - int K)"
    by linarith
  then show ?thesis unfolding L K .
qed

text \<open>
  Claim C10. In \<open>get_user_conversations\<close> the total counts the index entries of the
  user, while the data holds one item for each index entry of the page that has a row in
  \<^verbatim>\<open>conversations\<close>, and nothing for the others. So on a page in range the data has
  \<open>min limit (total - (page - 1) * limit)\<close> items less the number of entries of the page
  without a row, and the result says nothing of the difference.
\<close>

theorem index_entries_without_conversation_are_dropped:
  "total (get_user_conversations s u pg lim) = int (length (select_conversations_by_user s u))
   \<and> data (get_user_conversations s u pg lim) =
       concat (map (\<lambda>e. case get_conversation s (entry_conversation_id e) of
                           None \<Rightarrow> [] | Some c \<Rightarrow> [c]) (index_page s u pg lim))
   \<and> (1 \<le> pg \<and> 1 \<le> lim \<and> (pg - 1) * lim \<le> total (get_user_conversations s u pg lim) \<longrightarrow>
       int (length (data (get_user_conversations s u pg lim))) =
         min lim (total (get_user_conversations s u pg lim) - (pg - 1) * lim)
         - int (length (filter (\<lambda>e. get_conversation s (entry_conversation_id e) = None)
                          (index_page s u pg lim))))"
proof -
  let ?r = "get_user_conversations s u pg lim"
  let ?f = "\<lambda>e. get_conversation s (entry_conversation_id e)"
  have t: "total ?r = int (length (select_conversations_by_user s u))"
    by (simp add: get_user_conversations_def Let_def)
  have d: "data ?r = concat (map (\<lambda>e. case ?f e of None \<Rightarrow> [] | Some c \<Rightarrow> [c])
      (index_page s u pg lim))"
    by (simp add: get_user_conversations_def Let_def index_page_def format_conversations_eq)
  have n: "int (length (data ?r)) =
      int (length (index_page s u pg lim))
      - int (length (filter (\<lambda>e. ?f e = None) (index_page s u pg lim)))"
    unfolding d length_concat_options
    using length_filter_le [of "\<lambda>e. ?f e = None" "index_page s u pg lim"] by simp
  show ?thesis using t d n length_index_page [of pg lim s u] by simp
qed

text \<open>One index entry and no conversation row: the total is 1 and the data is empty.\<close>

theorem index_entries_without_conversation_are_dropped_witness:
  "(1::int) \<le> 1 \<and> (1::int) \<le> 20
   \<and> (1 - 1) * 20 \<le> total (get_user_conversations dangling_index 1 1 20)
   \<and> total (get_user_conversations dangling_index 1 1 20) = 1
   \<and> data (get_user_conversations dangling_index 1 1 20) = []
   \<and> int (length (data (get_user_conversations dangling_index 1 1 20)))
       < min 20 (total (get_user_conversations dangling_index 1 1 20) - (1 - 1) * 20)"
proof -
  have t: "total (get_user_conversations dangling_index 1 1 20) = 1" by code_simp
  have p: "index_page dangling_index 1 1 20 =
      [((1, 5, 7), \<lparr>other_user_id = 2, cbu_last_message_content = ''hi''\<rparr>)]"
    by code_simp
  have g: "get_conversation dangling_index 7 = None" by code_simp
  from index_entries_without_conversation_are_dropped [of dangling_index 1 1 20]
  show ?thesis unfolding t p by (simp add: entry_conversation_id_def g)
qed

subsection \<open>Pages out of range\<close>

lemma py_bound_le: "py_bound n i \<le> n"
  unfolding py_bound_def by auto

lemma py_slice_empty_iff:
  "(py_slice xs a b = []) = (py_bound (length xs) b \<le> py_bound (length xs) a)"
  using py_bound_le [of "length xs" a] py_bound_le [of "length xs" b]
  by (auto simp: py_slice_def Let_def)

lemma window_nonneg:
  assumes "0 \<le> a" and "0 \<le> l"
  shows "(py_bound n (a + l) \<le> py_bound n a) = (l = 0 \<or> int n \<le> a)"
  using assms by (auto simp: py_bound_def)

lemma window_from_zero_back:
  assumes "l < 0"
  shows "(py_bound n (0 + l) \<le> py_bound n 0) = (int n \<le> - l)"
  using assms by (auto simp: py_bound_def)

lemma window_shrinking:
  assumes "l \<le> 0" and "a < 0 \<or> 0 \<le> a + l"
  shows "py_bound n (a + l) \<le> py_bound n a"
  using assms by (auto simp: py_bound_def)

lemma window_negative:
  assumes "0 < l" and "a + l < 0"
  shows "(py_bound n (a + l) \<le> py_bound n a) = (int n \<le> - (a + l))"
  using assms by (auto simp: py_bound_def)

lemma window_to_zero:
  assumes "0 \<le> l"
  shows "py_bound n (- l + l) \<le> py_bound n (- l)"
  using assms by (auto simp: py_bound_def)

lemma page_slice_empty_iff:
  "(py_slice xs ((pg - 1) * lim) ((pg - 1) * lim + lim) = []) =
     (\<not> in_range (int (length xs)) pg lim \<and> \<not> wraps_around (int (length xs)) pg lim)"
proof -
  let ?n = "length xs"
  let ?a = "(pg - 1) * lim"
  have b: "?a + lim = pg * lim" by (simp add: algebra_simps)
  consider (zero) "lim = 0" | (page0) "pg = 0" "lim \<noteq> 0" | (pos) "1 \<le> pg" "1 \<le> lim"
    | (first_back) "pg = 1" "lim < 0" | (later_back) "2 \<le> pg" "lim < 0"
    | (neg_pos) "pg < 0" "0 < lim" | (neg_neg) "pg < 0" "lim < 0"
    by linarith
  then have "(py_bound ?n (?a + lim) \<le> py_bound ?n ?a) =
     (\<not> in_range (int ?n) pg lim \<and> \<not> wraps_around (int ?n) pg lim)"
  proof cases
    case zero
    then show ?thesis by (simp add: in_range_def wraps_around_def)
  next
    case page0
    show ?thesis
    proof (cases "0 \<le> lim")
      case True
      with page0 window_to_zero [of lim ?n] show ?thesis
        by (simp add: in_range_def wraps_around_def)
    next
      case False
      then have "lim \<le> 0" "0 \<le> - lim + lim" by simp_all
      with page0 window_shrinking [of lim "- lim" ?n] show ?thesis
        by (simp add: in_range_def wraps_around_def)
    qed
  next
    case pos
    then have "0 \<le> ?a" by simp
    with pos window_nonneg [of ?a lim ?n] show ?thesis
      by (auto simp: in_range_def wraps_around_def)
  next
    case first_back
    with window_from_zero_back [of lim ?n] show ?thesis
      by (auto simp: in_range_def wraps_around_def)
  next
    case later_back
    then have "?a < 0" by (intro mult_pos_neg) simp_all
    with later_back window_shrinking [of lim ?a ?n] show ?thesis
      by (auto simp: in_range_def wraps_around_def)
  next
    case neg_pos
    then have "pg * lim < 0" by (intro mult_neg_pos)
    with neg_pos window_negative [of lim ?a ?n] show ?thesis
      unfolding b by (auto simp: in_range_def wraps_around_def)
  next
    case neg_neg
    then have "0 < pg * lim" by (intro mult_neg_neg)
    then have "0 \<le> ?a + lim" unfolding b by simp
    with neg_neg window_shrinking [of lim ?a ?n] show ?thesis
      by (auto simp: in_range_def wraps_around_def)
  qed
  then show ?thesis by (simp only: py_slice_empty_iff)
qed

text \<open>
  Claim C7, amended. Every paginated read is a total function whose result carries the
  page and the limit of the request and, as total, the number of rows of the whole
  matching set. The data of \<open>get_conversation_messages\<close> and of
  \<open>get_messages_before_timestamp\<close> is empty exactly when the request is neither in range
  nor wraps around, and the data of \<open>get_user_conversations\<close> is empty then: so for a
  page after the last one, for page zero, for a limit of zero, for a negative page with
  a negative limit, and for a page of two or more with a negative limit.
\<close>

theorem out_of_range_page_is_empty:
  "(data (get_conversation_messages s c pg lim) = []) =
     (\<not> in_range (total (get_conversation_messages s c pg lim)) pg lim
      \<and> \<not> wraps_around (total (get_conversation_messages s c pg lim)) pg lim)
   \<and> (data (get_messages_before_timestamp s c t pg lim) = []) =
     (\<not> in_range (total (get_messages_before_timestamp s c t pg lim)) pg lim
      \<and> \<not> wraps_around (total (get_messages_before_timestamp s c t pg lim)) pg lim)
   \<and> (\<not> in_range (total (get_user_conversations s u pg lim)) pg lim
      \<and> \<not> wraps_around (total (get_user_conversations s u pg lim)) pg lim \<longrightarrow>
      data (get_user_conversations s u pg lim) = [])
   \<and> page (get_conversation_messages s c pg lim) = pg
   \<and> limit (get_conversation_messages s c pg lim) = lim
   \<and> page (get_messages_before_timestamp s c t pg lim) = pg
   \<and> limit (get_messages_before_timestamp s c t pg lim) = lim
   \<and> page (get_user_conversations s u pg lim) = pg
   \<and> limit (get_user_conversations s u pg lim) = lim
   \<and> total (get_conversation_messages s c pg lim) = int (length (select_messages s c))
   \<and> total (get_messages_before_timestamp s c t pg lim) =
       int (length (filter (\<lambda>r. timestamp r < t) (select_messages s c)))
   \<and> total (get_user_conversations s u pg lim) =
       int (length (select_conversations_by_user s u))"
proof -
  have a: "(data (get_conversation_messages s c pg lim) = []) =
     (\<not> in_range (total (get_conversation_messages s c pg lim)) pg lim
      \<and> \<not> wraps_around (total (get_conversation_messages s c pg lim)) pg lim)"
    using page_slice_empty_iff [of "sort_newest_first (select_messages s c)" pg lim]
    by (simp add: get_conversation_messages_def Let_def sort_newest_first_def)
  have b: "(data (get_messages_before_timestamp s c t pg lim) = []) =
     (\<not> in_range (total (get_messages_before_timestamp s c t pg lim)) pg lim
      \<and> \<not> wraps_around (total (get_messages_before_timestamp s c t pg lim)) pg lim)"
    using page_slice_empty_iff
      [of "sort_newest_first (filter (\<lambda>r. timestamp r < t) (select_messages s c))" pg lim]
    by (simp add: get_messages_before_timestamp_def Let_def sort_newest_first_def)
  have c: "\<not> in_range (total (get_user_conversations s u pg lim)) pg lim
      \<and> \<not> wraps_around (total (get_user_conversations s u pg lim)) pg lim \<Longrightarrow>
      data (get_user_conversations s u pg lim) = []"
    using page_slice_empty_iff [of "select_conversations_by_user s u" pg lim]
    by (simp add: get_user_conversations_def Let_def)
  have d: "page (get_conversation_messages s c pg lim) = pg"
    "limit (get_conversation_messages s c pg lim) = lim"
    "page (get_messages_before_timestamp s c t pg lim) = pg"
    "limit (get_messages_before_timestamp s c t pg lim) = lim"
    "page (get_user_conversations s u pg lim) = pg"
    "limit (get_user_conversations s u pg lim) = lim"
    by (simp_all add: get_conversation_messages_def get_messages_before_timestamp_def
        get_user_conversations_def Let_def)
  have e: "total (get_conversation_messages s c pg lim) = int (length (select_messages s c))"
    "total (get_messages_before_timestamp s c t pg lim) =
       int (length (filter (\<lambda>r. timestamp r < t) (select_messages s c)))"
    "total (get_user_conversations s u pg lim) =
       int (length (select_conversations_by_user s u))"
    by (simp_all add: get_conversation_messages_def get_messages_before_timestamp_def
        get_user_conversations_def Let_def)
  from a b c d e show ?thesis by blast
qed

text \<open>
  Over the three messages of conversation 1: page 3 by 2, page \<open>-1\<close> with limit \<open>-2\<close>,
  page 2 with limit \<open>-1\<close>, page zero and a limit of zero have no data; page \<open>-1\<close> with
  limit 2 has.
\<close>

theorem out_of_range_page_is_empty_witness:
  "\<not> in_range (total (get_user_conversations three_messages 1 (- 1) (- 1))) (- 1) (- 1)
   \<and> \<not> wraps_around (total (get_user_conversations three_messages 1 (- 1) (- 1))) (- 1) (- 1)
   \<and> data (get_user_conversations three_messages 1 (- 1) (- 1)) = []
   \<and> data (get_conversation_messages three_messages 1 3 2) = []
   \<and> data (get_conversation_messages three_messages 1 (- 1) (- 2)) = []
   \<and> data (get_conversation_messages three_messages 1 2 (- 1)) = []
   \<and> data (get_messages_before_timestamp three_messages 1 3 0 2) = []
   \<and> data (get_messages_before_timestamp three_messages 1 3 1 0) = []
   \<and> data (get_conversation_messages three_messages 1 (- 1) 2) \<noteq> []
   \<and> total (get_conversation_messages three_messages 1 3 2) = 3"
proof -
  have t1: "total (get_conversation_messages three_messages 1 pg lim) = 3" for pg lim
    using out_of_range_page_is_empty [of three_messages 1 pg lim 3 1]
    by (simp add: three_messages_def store_eval select_messages_def conversation_id_def)
  have t2: "total (get_messages_before_timestamp three_messages 1 3 pg lim) = 2" for pg lim
    using out_of_range_page_is_empty [of three_messages 1 pg lim 3 1]
    by (simp add: three_messages_def store_eval select_messages_def conversation_id_def
        timestamp_def)
  have t3: "total (get_user_conversations three_messages 1 pg lim) = 3" for pg lim
    using out_of_range_page_is_empty [of three_messages 1 pg lim 3 1]
    by (simp add: three_messages_def store_eval select_conversations_by_user_def)
  from out_of_range_page_is_empty [of three_messages 1 "- 1" "- 1" 3 1]
    out_of_range_page_is_empty [of three_messages 1 3 2 3 1]
    out_of_range_page_is_empty [of three_messages 1 "- 1" "- 2" 3 1]
    out_of_range_page_is_empty [of three_messages 1 2 "- 1" 3 1]
    out_of_range_page_is_empty [of three_messages 1 0 2 3 1]
    out_of_range_page_is_empty [of three_messages 1 1 0 3 1]
    out_of_range_page_is_empty [of three_messages 1 "- 1" 2 3 1]
  show ?thesis unfolding t1 t2 t3 by (simp add: in_range_def wraps_around_def)
qed

text \<open>
  Claim C7 as stated fails for a negative page with a positive limit and for page 1
  with a negative limit: bounds of the slice are negative then and count from the end
  of the list. Of the three messages
  of conversation 1, page \<open>-1\<close> with limit 2 is the slice \<^verbatim>\<open>[-4:-2]\<close>, which holds the
  newest message, and page 1 with limit \<open>-1\<close> is the slice \<^verbatim>\<open>[0:-1]\<close>, which holds all
  but the oldest.
\<close>

theorem negative_page_wraps_around:
  "(- 1 :: int) \<le> 0
   \<and> data (get_conversation_messages three_messages 1 (- 1) 2) \<noteq> []
   \<and> data (get_conversation_messages three_messages 1 (- 1) 2) =
       [\<lparr>sender_id = 1, receiver_id = 2, content = ''c'', msg_id = 12,
         msg_conversation_id = 1, msg_created_at = 3\<rparr>]
   \<and> data (get_conversation_messages three_messages 1 1 (- 1)) =
       [\<lparr>sender_id = 1, receiver_id = 2, content = ''c'', msg_id = 12,
         msg_conversation_id = 1, msg_created_at = 3\<rparr>,
        \<lparr>sender_id = 2, receiver_id = 1, content = ''b'', msg_id = 11,
         msg_conversation_id = 1, msg_created_at = 2\<rparr>]"
  by code_simp

subsection \<open>The index of conversations by user\<close>

text \<open>
  Claim C1 does not hold of \<open>create_message\<close>: the primary key of
  \<^verbatim>\<open>conversations_by_user\<close> contains \<^verbatim>\<open>last_message_at\<close>, so the \<^verbatim>\<open>INSERT\<close> of a
  message with a new timestamp adds an index row and leaves the row of the message
  before in place. After two messages in the one conversation of users 1 and 2,
  \<open>get_user_conversations\<close> reports a total of 2 for user 1 and lists the conversation
  twice.
\<close>

theorem index_entry_per_message:
  "total (get_user_conversations two_users_talk 1 1 20) = 2
   \<and> data (get_user_conversations two_users_talk 1 1 20) =
       [\<lparr>user1_id = Some 1, user2_id = Some 2, last_message_at = Some 3,
         last_message_content = Some ''hello'', conv_id = 1\<rparr>,
        \<lparr>user1_id = Some 1, user2_id = Some 2, last_message_at = Some 3,
         last_message_content = Some ''hello'', conv_id = 1\<rparr>]"
  by code_simp

subsection \<open>Finding or creating a conversation\<close>

lemma create_or_get_found:
  assumes "select_pair s a b \<noteq> []"
  shows "conv_id (fst (create_or_get_conversation now a b s)) = fst (hd (select_pair s a b))"
    and "snd (create_or_get_conversation now a b s) = s"
  using assms by (auto simp: create_or_get_conversation_def Let_def split: list.splits)

lemma create_or_get_found_reverse:
  assumes "select_pair s a b = []" and "select_pair s b a \<noteq> []"
  shows "conv_id (fst (create_or_get_conversation now a b s)) = fst (hd (select_pair s b a))"
    and "snd (create_or_get_conversation now a b s) = s"
  using assms by (auto simp: create_or_get_conversation_def Let_def split: list.splits)

lemma select_pair_after_create:
  assumes "select_pair s a b = []" and "select_pair s b a = []"
  shows "select_pair (snd (create_or_get_conversation now a b s)) a b =
           [(or_zero (select_max_id s) + 1,
             \<lparr>user1_id = Some a, user2_id = Some b, last_message_at = Some now,
              last_message_content = None, created_at = Some now\<rparr>)]"
    and "a \<noteq> b \<Longrightarrow> select_pair (snd (create_or_get_conversation now a b s)) b a = []"
  using assms
  by (auto simp: create_new_conversation [OF assms] select_pair_def DAList.update.rep_eq
      update_fresh [OF new_id_fresh])

lemma pair_unique_iff:
  "pair_unique s =
     (\<forall>r1 \<in> set (DAList.impl_of (conversations s)).
      \<forall>r2 \<in> set (DAList.impl_of (conversations s)). same_pair r1 r2 \<longrightarrow> fst r1 = fst r2)"
  by (simp add: pair_unique_def list_all_iff)

lemma hd_select_pair:
  assumes "select_pair s a b \<noteq> []"
  shows "hd (select_pair s a b) \<in> set (DAList.impl_of (conversations s))"
    and "user1_id (snd (hd (select_pair s a b))) = Some a"
    and "user2_id (snd (hd (select_pair s a b))) = Some b"
proof -
  from assms have "hd (select_pair s a b) \<in> set (select_pair s a b)" by (rule hd_in_set)
  then show "hd (select_pair s a b) \<in> set (DAList.impl_of (conversations s))"
    and "user1_id (snd (hd (select_pair s a b))) = Some a"
    and "user2_id (snd (hd (select_pair s a b))) = Some b"
    by (simp_all add: select_pair_def)
qed

lemma pair_unique_both_orientations:
  assumes "pair_unique s" and "select_pair s a b \<noteq> []" and "select_pair s b a \<noteq> []"
  shows "fst (hd (select_pair s b a)) = fst (hd (select_pair s a b))"
proof -
  have "same_pair (hd (select_pair s a b)) (hd (select_pair s b a))"
    by (simp add: same_pair_def hd_select_pair [OF assms(2)] hd_select_pair [OF assms(3)])
  with assms(1) hd_select_pair(1) [OF assms(2)] hd_select_pair(1) [OF assms(3)]
  show ?thesis by (auto simp: pair_unique_iff)
qed

lemma first_rows_differ:
  assumes "a \<noteq> b" and "select_pair s a b \<noteq> []" and "select_pair s b a \<noteq> []"
  shows "fst (hd (select_pair s b a)) \<noteq> fst (hd (select_pair s a b))"
proof
  let ?r1 = "hd (select_pair s a b)" and ?r2 = "hd (select_pair s b a)"
  assume e: "fst ?r2 = fst ?r1"
  have "distinct (map fst (DAList.impl_of (conversations s)))" by simp
  moreover have "(fst ?r1, snd ?r1) \<in> set (DAList.impl_of (conversations s))"
    using hd_select_pair(1) [OF assms(2)] by simp
  moreover have "(fst ?r1, snd ?r2) \<in> set (DAList.impl_of (conversations s))"
    using hd_select_pair(1) [OF assms(3)] e by (metis prod.collapse)
  ultimately have "snd ?r1 = snd ?r2" by (rule eq_key_imp_eq_value)
  then have "user1_id (snd ?r1) = user1_id (snd ?r2)" by simp
  then show False
    using assms(1) by (simp add: hd_select_pair(2) [OF assms(2)] hd_select_pair(2) [OF assms(3)])
qed

text \<open>
  Claim C5, amended. On every store, calling \<open>create_or_get_conversation\<close> a second
  time for the same two users in the same order returns the conversation id of the
  first call, and the second call leaves the store as the first call left it, also
  when its arguments are exchanged. With the arguments exchanged the second call
  returns the id of the first exactly when the two users are the same or the table,
  before the first call, has no row for the pair in one of the two orientations.
\<close>

theorem create_or_get_conversation_idempotent:
  "conv_id (fst (create_or_get_conversation n2 a b (snd (create_or_get_conversation n1 a b s)))) =
     conv_id (fst (create_or_get_conversation n1 a b s))
   \<and> snd (create_or_get_conversation n2 a b (snd (create_or_get_conversation n1 a b s))) =
     snd (create_or_get_conversation n1 a b s)
   \<and> snd (create_or_get_conversation n3 b a (snd (create_or_get_conversation n1 a b s))) =
     snd (create_or_get_conversation n1 a b s)
   \<and> (conv_id (fst (create_or_get_conversation n3 b a (snd (create_or_get_conversation n1 a b s)))) =
        conv_id (fst (create_or_get_conversation n1 a b s))) =
     (a = b \<or> select_pair s a b = [] \<or> select_pair s b a = [])"
proof -
  let ?s1 = "snd (create_or_get_conversation n1 a b s)"
  consider (found) "select_pair s a b \<noteq> []"
    | (reverse) "select_pair s a b = []" "select_pair s b a \<noteq> []"
    | (new) "select_pair s a b = []" "select_pair s b a = []"
    by blast
  then show ?thesis
  proof cases
    case found
    have s1: "?s1 = s" by (rule create_or_get_found(2) [OF found])
    have id1: "conv_id (fst (create_or_get_conversation n1 a b s)) = fst (hd (select_pair s a b))"
      by (rule create_or_get_found(1) [OF found])
    have st: "snd (create_or_get_conversation n3 b a s) = s"
      by (cases "select_pair s b a = []")
        (simp_all add: create_or_get_found(2) create_or_get_found_reverse(2) [OF _ found])
    have "(conv_id (fst (create_or_get_conversation n3 b a s)) = fst (hd (select_pair s a b))) =
        (a = b \<or> select_pair s b a = [])"
    proof (cases "select_pair s b a = []")
      case True
      then show ?thesis by (simp add: create_or_get_found_reverse(1) [OF True found])
    next
      case False
      have id3: "conv_id (fst (create_or_get_conversation n3 b a s)) = fst (hd (select_pair s b a))"
        by (rule create_or_get_found(1) [OF False])
      show ?thesis
      proof (cases "a = b")
        case True
        then show ?thesis unfolding id3 by simp
      next
        case ne: False
        with first_rows_differ [OF ne found False] False show ?thesis unfolding id3 by simp
      qed
    qed
    with found st show ?thesis
      unfolding s1 by (simp add: create_or_get_found [OF found])
  next
    case reverse
    have s1: "?s1 = s" by (rule create_or_get_found_reverse(2) [OF reverse])
    show ?thesis
      unfolding s1
      by (simp add: create_or_get_found_reverse [OF reverse] create_or_get_found [OF reverse(2)]
          reverse(1))
  next
    case new
    let ?new = "or_zero (select_max_id s) + 1"
    have id1: "conv_id (fst (create_or_get_conversation n1 a b s)) = ?new"
      by (simp add: create_new_conversation [OF new])
    have ab: "select_pair ?s1 a b \<noteq> []" and hd: "fst (hd (select_pair ?s1 a b)) = ?new"
      by (simp_all add: select_pair_after_create(1) [OF new])
    have same: "conv_id (fst (create_or_get_conversation n2 a b ?s1)) = ?new"
      "snd (create_or_get_conversation n2 a b ?s1) = ?s1"
      using create_or_get_found [OF ab] hd by simp_all
    have rev: "conv_id (fst (create_or_get_conversation n3 b a ?s1)) = ?new
      \<and> snd (create_or_get_conversation n3 b a ?s1) = ?s1"
    proof (cases "a = b")
      case True
      then show ?thesis using create_or_get_found [OF ab] hd by simp
    next
      case False
      have "select_pair ?s1 b a = []" by (rule select_pair_after_create(2) [OF new False])
      then show ?thesis using create_or_get_found_reverse [OF _ ab] hd by simp
    qed
    show ?thesis using id1 same rev new by simp
  qed
qed

text \<open>
  The conversation of users 2 and 1 exists, created by the call for \<open>(2, 1)\<close>, and
  there is no row for \<open>(1, 2)\<close>: the calls for \<open>(1, 2)\<close>, for \<open>(1, 2)\<close> again and for
  \<open>(2, 1)\<close> all return its id.
\<close>

theorem create_or_get_conversation_idempotent_witness:
  "select_pair (snd (create_or_get_conversation 1 2 1 empty_store)) 1 2 = []
   \<and> conv_id (fst (create_or_get_conversation 5 1 2
         (snd (create_or_get_conversation 1 2 1 empty_store)))) = 1
   \<and> conv_id (fst (create_or_get_conversation 6 1 2
         (snd (create_or_get_conversation 5 1 2
           (snd (create_or_get_conversation 1 2 1 empty_store)))))) = 1
   \<and> conv_id (fst (create_or_get_conversation 7 2 1
         (snd (create_or_get_conversation 5 1 2
           (snd (create_or_get_conversation 1 2 1 empty_store)))))) = 1
   \<and> snd (create_or_get_conversation 7 2 1
         (snd (create_or_get_conversation 5 1 2
           (snd (create_or_get_conversation 1 2 1 empty_store))))) =
       snd (create_or_get_conversation 5 1 2
         (snd (create_or_get_conversation 1 2 1 empty_store)))"
proof -
  let ?s = "snd (create_or_get_conversation 1 2 1 empty_store)"
  have h: "select_pair ?s 1 2 = []" by code_simp
  have i: "conv_id (fst (create_or_get_conversation 5 1 2 ?s)) = 1" by code_simp
  from create_or_get_conversation_idempotent [where s = ?s and a = 1 and b = 2
      and ?n1.0 = 5 and ?n2.0 = 6 and ?n3.0 = 7] h i
  show ?thesis by simp
qed

text \<open>
  Claim C5 as stated, for every store, fails where the table holds the pair in both
  orientations: each call returns the first row of its own orientation.
\<close>

theorem both_orientations_return_two_ids:
  "conv_id (fst (create_or_get_conversation 5 1 2 both_orientations)) = 1
   \<and> conv_id (fst (create_or_get_conversation 6 2 1
         (snd (create_or_get_conversation 5 1 2 both_orientations)))) = 2
   \<and> select_pair both_orientations 1 2 \<noteq> []
   \<and> select_pair both_orientations 2 1 \<noteq> []"
  by code_simp

subsection \<open>The invariant of the table of conversations is maintained\<close>

text \<open>
  The empty store has at most one row for a pair of participants, and the two methods
  that write to \<^verbatim>\<open>conversations\<close> keep it so: \<open>create_or_get_conversation\<close> adds a row
  only when no row matches the pair in either orientation, and \<open>create_message\<close> does
  not write the participants of a row. On such a store no pair of distinct users has
  rows in both orientations.
\<close>

lemma pair_unique_one_orientation:
  assumes "pair_unique s"
  shows "a = b \<or> select_pair s a b = [] \<or> select_pair s b a = []"
proof (rule ccontr)
  assume "\<not> ?thesis"
  then have n: "a \<noteq> b" "select_pair s a b \<noteq> []" "select_pair s b a \<noteq> []" by simp_all
  from pair_unique_both_orientations [OF assms n(2,3)] first_rows_differ [OF n]
  show False by simp
qed

lemma pair_unique_empty_store: "pair_unique empty_store"
  by (simp add: pair_unique_def empty_store_def DAList.empty.rep_eq)

lemma select_pair_empty_iff:
  "(select_pair s a b = []) =
     (\<forall>r \<in> set (DAList.impl_of (conversations s)).
        \<not> (user1_id (snd r) = Some a \<and> user2_id (snd r) = Some b))"
  by (simp add: select_pair_def filter_empty_conv)

lemma pair_unique_create_or_get_conversation:
  assumes "pair_unique s"
  shows "pair_unique (snd (create_or_get_conversation now a b s))"
proof (cases "select_pair s a b = [] \<and> select_pair s b a = []")
  case False
  then have "snd (create_or_get_conversation now a b s) = s"
    by (cases "select_pair s a b = []")
      (simp_all add: create_or_get_found(2) create_or_get_found_reverse(2))
  with assms show ?thesis by simp
next
  case True
  then have e: "select_pair s a b = []" "select_pair s b a = []" by simp_all
  let ?new = "(or_zero (select_max_id s) + 1,
      \<lparr>user1_id = Some a, user2_id = Some b, last_message_at = Some now,
       last_message_content = None, created_at = Some now\<rparr>)"
  have rows: "DAList.impl_of (conversations (snd (create_or_get_conversation now a b s))) =
      DAList.impl_of (conversations s) @ [?new]"
    by (simp add: create_new_conversation [OF e] DAList.update.rep_eq
        update_fresh [OF new_id_fresh])
  have old: "\<not> same_pair r ?new \<and> \<not> same_pair ?new r"
    if "r \<in> set (DAList.impl_of (conversations s))" for r
    using that e by (auto simp: select_pair_empty_iff same_pair_def)
  show ?thesis
    unfolding pair_unique_iff rows using assms old
    by (auto simp: pair_unique_iff)
qed

lemma users_write_conversation:
  assumes "\<And>v. user1_id (f v) = user1_id v" and "\<And>v. user2_id (f v) = user2_id v"
    and "r \<in> set (DAList.impl_of (write_conversation c f t))"
  shows "(\<exists>r' \<in> set (DAList.impl_of t).
            fst r' = fst r \<and> user1_id (snd r') = user1_id (snd r)
            \<and> user2_id (snd r') = user2_id (snd r))
         \<or> (user1_id (snd r) = None \<and> user2_id (snd r) = None)"
proof -
  let ?v = "f (case DAList.lookup t c of None \<Rightarrow> null_conv | Some v \<Rightarrow> v)"
  have "map_of (DAList.impl_of (write_conversation c f t)) (fst r) = Some (snd r)"
    using assms(3) by (simp add: map_of_is_SomeI)
  then have m: "((map_of (DAList.impl_of t))(c \<mapsto> ?v)) (fst r) = Some (snd r)"
    by (simp add: write_conversation_def DAList.update.rep_eq update_conv')
  show ?thesis
  proof (cases "fst r = c")
    case False
    with m have "map_of (DAList.impl_of t) (fst r) = Some (snd r)" by simp
    then have "(fst r, snd r) \<in> set (DAList.impl_of t)" by (rule map_of_SomeD)
    then show ?thesis by auto
  next
    case True
    with m have v: "snd r = ?v" by simp
    show ?thesis
    proof (cases "DAList.lookup t c")
      case None
      have "user1_id (snd r) = None" unfolding v None by (simp add: assms(1) null_conv_def)
      moreover have "user2_id (snd r) = None" unfolding v None by (simp add: assms(2) null_conv_def)
      ultimately show ?thesis by simp
    next
      case (Some w)
      then have "map_of (DAList.impl_of t) c = Some w"
        by (simp add: DAList.lookup.rep_eq)
      then have "(c, w) \<in> set (DAList.impl_of t)" by (rule map_of_SomeD)
      moreover have "fst (c, w) = fst r" using True by simp
      moreover have "user1_id (snd (c, w)) = user1_id (snd r)"
        unfolding v Some by (simp add: assms(1))
      moreover have "user2_id (snd (c, w)) = user2_id (snd r)"
        unfolding v Some by (simp add: assms(2))
      ultimately show ?thesis by blast
    qed
  qed
qed

lemma pair_unique_create_message:
  assumes "pair_unique s"
  shows "pair_unique (snd (create_message now mid sender receiver text c s))"
proof -
  let ?f = "\<lambda>v::conv_cols. v\<lparr>last_message_at := Some now, last_message_content := Some text\<rparr>"
  let ?t = "write_conversation c ?f (conversations s)"
  have u: "(\<exists>r' \<in> set (DAList.impl_of (conversations s)).
            fst r' = fst r \<and> user1_id (snd r') = user1_id (snd r)
            \<and> user2_id (snd r') = user2_id (snd r))
         \<or> (user1_id (snd r) = None \<and> user2_id (snd r) = None)"
    if "r \<in> set (DAList.impl_of ?t)" for r
    using users_write_conversation [of ?f r c "conversations s"] that by simp
  have "fst r1 = fst r2"
    if r: "r1 \<in> set (DAList.impl_of ?t)" "r2 \<in> set (DAList.impl_of ?t)" and sp: "same_pair r1 r2"
    for r1 r2
  proof -
    from sp have n1: "user1_id (snd r1) \<noteq> None" and n2: "user1_id (snd r2) \<noteq> None"
      by (auto simp: same_pair_def)
    from u [OF r(1)] n1 obtain q1 where q1: "q1 \<in> set (DAList.impl_of (conversations s))"
      "fst q1 = fst r1" "user1_id (snd q1) = user1_id (snd r1)"
      "user2_id (snd q1) = user2_id (snd r1)" by auto
    from u [OF r(2)] n2 obtain q2 where q2: "q2 \<in> set (DAList.impl_of (conversations s))"
      "fst q2 = fst r2" "user1_id (snd q2) = user1_id (snd r2)"
      "user2_id (snd q2) = user2_id (snd r2)" by auto
    from sp q1 q2 have "same_pair q1 q2" by (simp add: same_pair_def)
    with assms q1(1) q2(1) have "fst q1 = fst q2" by (auto simp: pair_unique_iff)
    with q1(2) q2(2) show ?thesis by simp
  qed
  then show ?thesis
    unfolding pair_unique_iff conversations_create_message by blast
qed

end
